theory Spec2Isabelle
  imports Main "HOL-Library.Sublist"
begin

section \<open>Data model of app.py\<close>

text \<open>
  Python exceptions are values: \<open>Exception m\<close> is an exception whose \<open>str(e)\<close> is \<open>m\<close>.
  A call that may raise returns \<open>error + 'a\<close>, with \<open>Inl\<close> for the raise.
  A character of a model string stands for one character of the Python string.
\<close>

datatype error = Exception string

fun str :: "error \<Rightarrow> string" where
  "str (Exception m) = m"

text \<open>A LangChain document: its text and its metadata dictionary.\<close>

record Document =
  page_content :: string
  metadata :: "string \<rightharpoonup> string"

text \<open>The dataclass \<open>NotesConfig\<close> and the module-level value \<open>config\<close>.\<close>

record NotesConfig =
  notes_dir :: string
  glob_pattern :: string
  chunk_size :: nat
  chunk_overlap :: nat

definition config :: NotesConfig where
  "config = \<lparr>notes_dir = ''./notes'', glob_pattern = ''**/*.md'',
             chunk_size = 1200, chunk_overlap = 150\<rparr>"

definition separators :: "string list" where
  "separators = [[CHR 0x0A, CHR 0x0A], [CHR 0x0A], '' '', '''']"

subsection \<open>Paths and the directory tree\<close>

text \<open>
  \<open>pathlib\<close> on a POSIX system: a path string is cut at every slash, empty components and
  \<open>.\<close> are dropped; \<open>Path(s).name\<close> is the last remaining component, or the empty string.
\<close>

fun split_slash :: "string \<Rightarrow> string \<Rightarrow> string list" where
  "split_slash cur [] = [cur]"
| "split_slash cur (c # cs) =
     (if c = CHR ''/'' then cur # split_slash [] cs else split_slash (cur @ [c]) cs)"

definition parts :: "string \<Rightarrow> string list" where
  "parts s = filter (\<lambda>p. p \<noteq> [] \<and> p \<noteq> ''.'') (split_slash [] s)"

definition Path_name :: "string \<Rightarrow> string" where
  "Path_name s = (if parts s = [] then [] else last (parts s))"

text \<open>\<open>sep.join(xs)\<close> of Python.\<close>

fun join :: "'a list \<Rightarrow> 'a list list \<Rightarrow> 'a list" where
  "join sep [] = []"
| "join sep [x] = x"
| "join sep (x # y # ys) = x @ sep @ join sep (y # ys)"

text \<open>
  The working directory is a tree of named entries. What a file holds is read by the
  loaders only, which are collaborators of the environment, so a file node carries no
  content here.
\<close>

datatype node = File | Dir "(string \<times> node) list"

fun lookup_path :: "string list \<Rightarrow> (string \<times> node) list \<Rightarrow> node option" where
  "lookup_path [] es = Some (Dir es)"
| "lookup_path (p # ps) es =
     (case map_of es p of
        None \<Rightarrow> None
      | Some File \<Rightarrow> (if ps = [] then Some File else None)
      | Some (Dir sub) \<Rightarrow> lookup_path ps sub)"

text \<open>\<open>Path(p).mkdir(parents=True, exist_ok=True)\<close>, relative to the working directory.\<close>

fun mkdir_p :: "string list \<Rightarrow> (string \<times> node) list \<Rightarrow> error + (string \<times> node) list" where
  "mkdir_p [] es = Inr es"
| "mkdir_p (p # ps) es =
     (case map_of es p of
        None \<Rightarrow>
          (case mkdir_p ps [] of
             Inl e \<Rightarrow> Inl e
           | Inr sub \<Rightarrow> Inr (es @ [(p, Dir sub)]))
      | Some File \<Rightarrow>
          Inl (Exception (if ps = [] then ''FileExistsError'' else ''NotADirectoryError''))
      | Some (Dir sub) \<Rightarrow>
          (case mkdir_p ps sub of
             Inl e \<Rightarrow> Inl e
           | Inr sub' \<Rightarrow> Inr (map (\<lambda>(n, c). if n = p then (n, Dir sub') else (n, c)) es)))"

text \<open>
  \<open>dir.rglob("*" + suffix)\<close>: the entries of the directory whose name ends with the
  suffix, then those of every subdirectory, recursively, in the order of the entries.
\<close>

definition fnmatch :: "string \<Rightarrow> string \<Rightarrow> bool" where
  "fnmatch ext name =
     (length ext \<le> length name \<and> drop (length name - length ext) name = ext)"

text \<open>\<open>dir / n\<close>; the path of the working directory itself is written as the empty string.\<close>

definition child :: "string \<Rightarrow> string \<Rightarrow> string" where
  "child dir n = (if dir = [] then n else dir @ ''/'' @ n)"

definition matching :: "string \<Rightarrow> string \<Rightarrow> (string \<times> node) list \<Rightarrow> string list" where
  "matching ext dir es =
     map (\<lambda>(n, c). child dir n) (filter (\<lambda>(n, c). fnmatch ext n) es)"

fun rglob_subdirs :: "string \<Rightarrow> string \<Rightarrow> (string \<times> node) list \<Rightarrow> string list"
  and rglob_node :: "string \<Rightarrow> string \<Rightarrow> node \<Rightarrow> string list" where
  "rglob_subdirs ext dir [] = []"
| "rglob_subdirs ext dir ((n, c) # es) =
     rglob_node ext (child dir n) c @ rglob_subdirs ext dir es"
| "rglob_node ext dir File = []"
| "rglob_node ext dir (Dir es) = matching ext dir es @ rglob_subdirs ext dir es"

text \<open>
  \<open>Path(d).rglob(pattern)\<close> from the working directory; a directory that is missing
  yields nothing.
\<close>

definition rglob :: "(string \<times> node) list \<Rightarrow> string \<Rightarrow> string \<Rightarrow> string list" where
  "rglob cwd d ext =
     (case lookup_path (parts d) cwd of
        None \<Rightarrow> []
      | Some n \<Rightarrow> rglob_node ext (join ''/'' (parts d)) n)"

section \<open>The collaborators and the note reader\<close>

text \<open>
  What app.py reaches outside itself is one record: the working directory, the three
  document loaders, the text splitter, \<open>FAISS.from_documents\<close> with the embeddings (the
  embedding calls and the index build), the similarity search behind the retriever, and
  the chat model. Each of them may raise. \<open>'vs\<close> is the type of a built vector store.
\<close>

record 'vs env =
  cwd :: "(string \<times> node) list"
  TextLoader :: "string \<Rightarrow> error + Document list"
  PyPDFLoader :: "string \<Rightarrow> error + Document list"
  Docx2txtLoader :: "string \<Rightarrow> error + Document list"
  split_documents :: "nat \<Rightarrow> nat \<Rightarrow> string list \<Rightarrow> Document list \<Rightarrow> error + Document list"
  from_documents :: "Document list \<Rightarrow> error + 'vs"
  similarity_search :: "'vs \<Rightarrow> string \<Rightarrow> nat \<Rightarrow> error + Document list"
  llm :: "string \<Rightarrow> error + string"

text \<open>
  \<open>as_retriever(search_kwargs={"k": 4})\<close> wraps the store with the number of results, and
  the chain built by \<open>setup_rag_chain\<close> wraps the retriever; both are plain
  constructions in memory.
\<close>

datatype 'vs retriever = VectorStoreRetriever 'vs nat

datatype 'vs chain = RunnableSequence "'vs retriever"

definition as_retriever :: "'vs \<Rightarrow> 'vs retriever" where
  "as_retriever vs = VectorStoreRetriever vs 4"

record 'vs NoteReader =
  vectorstore :: "'vs option"
  retriever :: "'vs retriever option"
  rag_chain :: "'vs chain option"
  notes_content :: string

subsection \<open>load_any_notes\<close>

text \<open>
  One \<open>for fp in ...: docs.extend(Loader(str(fp)).load())\<close> loop: a raise of the loader
  leaves the loop and the function.
\<close>

fun load_each ::
  "(string \<Rightarrow> error + Document list) \<Rightarrow> string list \<Rightarrow> Document list \<Rightarrow> error + Document list" where
  "load_each loader [] docs = Inr docs"
| "load_each loader (fp # fps) docs =
     (case loader fp of
        Inl e \<Rightarrow> Inl e
      | Inr ds \<Rightarrow> load_each loader fps (docs @ ds))"

definition load_any_notes :: "'vs env \<Rightarrow> string \<Rightarrow> error + Document list" where
  "load_any_notes env d =
     (case load_each (TextLoader env) (rglob (cwd env) d ''.md'') [] of
        Inl e \<Rightarrow> Inl e
      | Inr docs1 \<Rightarrow>
     (case load_each (TextLoader env) (rglob (cwd env) d ''.txt'') docs1 of
        Inl e \<Rightarrow> Inl e
      | Inr docs2 \<Rightarrow>
     (case load_each (PyPDFLoader env) (rglob (cwd env) d ''.pdf'') docs2 of
        Inl e \<Rightarrow> Inl e
      | Inr docs3 \<Rightarrow>
        load_each (Docx2txtLoader env) (rglob (cwd env) d ''.docx'') docs3)))"

text \<open>
  For the statements about the loader: the files in the order in which \<open>load_any_notes\<close>
  reaches them, each paired with the loader it is given to, and the load of one of them.
\<close>

definition discovered :: "'vs env \<Rightarrow> string \<Rightarrow> ((string \<Rightarrow> error + Document list) \<times> string) list" where
  "discovered env d =
     map (Pair (TextLoader env)) (rglob (cwd env) d ''.md'')
     @ map (Pair (TextLoader env)) (rglob (cwd env) d ''.txt'')
     @ map (Pair (PyPDFLoader env)) (rglob (cwd env) d ''.pdf'')
     @ map (Pair (Docx2txtLoader env)) (rglob (cwd env) d ''.docx'')"

definition load_file :: "(string \<Rightarrow> error + Document list) \<times> string \<Rightarrow> error + Document list" where
  "load_file j = fst j (snd j)"

fun load_files ::
  "((string \<Rightarrow> error + Document list) \<times> string) list \<Rightarrow> Document list \<Rightarrow> error + Document list" where
  "load_files [] docs = Inr docs"
| "load_files (j # js) docs =
     (case load_file j of
        Inl e \<Rightarrow> Inl e
      | Inr ds \<Rightarrow> load_files js (docs @ ds))"

subsection \<open>Formatting\<close>

text \<open>\<open>d.metadata.get(key, default)\<close>.\<close>

definition get :: "(string \<rightharpoonup> string) \<Rightarrow> string \<Rightarrow> string \<Rightarrow> string" where
  "get m k dflt = (case m k of None \<Rightarrow> dflt | Some v \<Rightarrow> v)"

text \<open>The page icon of the display text, written as its four UTF-8 bytes.\<close>

definition page_icon :: string where
  "page_icon = [CHR 0xF0, CHR 0x9F, CHR 0x93, CHR 0x84]"

definition format_notes_for_display :: "Document list \<Rightarrow> string" where
  "format_notes_for_display docs =
     join [CHR 0x0A, CHR 0x0A]
       (foldl (\<lambda>formatted doc.
                 formatted @ [page_icon @ '' '' @ Path_name (get (metadata doc) ''source'' ''unknown'')
                              @ [CHR 0x0A] @ take 200 (page_content doc) @ ''...''])
              [] docs)"

definition context_separator :: string where
  "context_separator = [CHR 0x0A, CHR 0x0A] @ ''---'' @ [CHR 0x0A, CHR 0x0A]"

text \<open>The name that \<open>format_docs\<close> puts into the tag of a document.\<close>

definition source_name :: "Document \<Rightarrow> string" where
  "source_name d = Path_name (get (metadata d) ''source'' ''unknown.md'')"

definition format_docs :: "Document list \<Rightarrow> string" where
  "format_docs docs =
     join context_separator
       (foldl (\<lambda>formatted d.
                 formatted @ [''[SOURCE: '' @ source_name d @ '']'' @ [CHR 0x0A] @ page_content d])
              [] docs)"

subsection \<open>The chain\<close>

text \<open>\<open>RAG_PROMPT\<close> with its two placeholders filled.\<close>

definition RAG_PROMPT :: "string \<Rightarrow> string \<Rightarrow> string" where
  "RAG_PROMPT question context =
     ''You are a helpful notes assistant. Use only the provided context to answer the question.''
     @ [CHR 0x0A] @ ''Cite sources like [SOURCE: filename.md] when relevant.''
     @ [CHR 0x0A, CHR 0x0A] @ ''Question:'' @ [CHR 0x0A] @ question
     @ [CHR 0x0A, CHR 0x0A] @ ''Context:'' @ [CHR 0x0A] @ context
     @ [CHR 0x0A, CHR 0x0A]
     @ ''Answer succinctly, with bullet points when helpful, and list sources at the end.''"

text \<open>
  The calls a query makes outside the process are logged, so that a theorem can say that
  none was made.
\<close>

datatype call = Retrieve string | Generate string

text \<open>
  \<open>rag_chain.invoke(query)\<close>: the retriever fetches the documents, \<open>format_docs\<close> makes
  the context, the prompt is rendered and sent to the model; the parser returns the
  model's text. A raise of the retriever ends the call before the model is asked.
\<close>

fun invoke :: "'vs env \<Rightarrow> 'vs chain \<Rightarrow> string \<Rightarrow> (error + string) \<times> call list" where
  "invoke env (RunnableSequence (VectorStoreRetriever vs k)) query =
     (case similarity_search env vs query k of
        Inl e \<Rightarrow> (Inl e, [Retrieve query])
      | Inr docs \<Rightarrow>
          (let prompt = RAG_PROMPT query (format_docs docs)
           in (llm env prompt, [Retrieve query, Generate prompt])))"

subsection \<open>The methods of NoteReader\<close>

definition setup_rag_chain :: "'vs NoteReader \<Rightarrow> 'vs NoteReader" where
  "setup_rag_chain self =
     (case retriever self of
        None \<Rightarrow> self
      | Some r \<Rightarrow> self\<lparr>rag_chain := Some (RunnableSequence r)\<rparr>)"

definition no_notes_message :: string where
  "no_notes_message = ''No notes found. Please add some documents to the ./notes folder.''"

text \<open>
  The body of the \<open>try\<close> in \<open>initialize_notes\<close>. The calls that can raise (loading,
  splitting, embedding and building the index) all come before the first assignment to a
  field, so a raise leaves the fields as they were.
\<close>

definition initialize_body :: "'vs env \<Rightarrow> 'vs NoteReader \<Rightarrow> error + 'vs NoteReader" where
  "initialize_body env self =
     (case load_any_notes env (notes_dir config) of
        Inl e \<Rightarrow> Inl e
      | Inr raw_docs \<Rightarrow>
          if raw_docs = [] then Inr (self\<lparr>notes_content := no_notes_message\<rparr>)
          else
            (case split_documents env (chunk_size config) (chunk_overlap config) separators raw_docs of
               Inl e \<Rightarrow> Inl e
             | Inr docs \<Rightarrow>
                 (case from_documents env docs of
                    Inl e \<Rightarrow> Inl e
                  | Inr vs \<Rightarrow>
                      Inr (setup_rag_chain
                             (self\<lparr>vectorstore := Some vs,
                                   retriever := Some (as_retriever vs),
                                   notes_content := format_notes_for_display raw_docs\<rparr>)))))"

definition initialize_notes :: "'vs env \<Rightarrow> 'vs NoteReader \<Rightarrow> 'vs NoteReader" where
  "initialize_notes env self =
     (case initialize_body env self of
        Inl e \<Rightarrow> self\<lparr>notes_content := ''Error loading notes: '' @ str e\<rparr>
      | Inr self' \<Rightarrow> self')"

text \<open>\<open>NoteReader()\<close>: the constructor sets the four fields and initializes.\<close>

definition blank :: "'vs NoteReader" where
  "blank = \<lparr>vectorstore = None, retriever = None, rag_chain = None, notes_content = []\<rparr>"

definition init :: "'vs env \<Rightarrow> 'vs NoteReader" where
  "init env = initialize_notes env blank"

definition read_notes :: "'vs NoteReader \<Rightarrow> string" where
  "read_notes self = notes_content self"

definition not_initialized_message :: string where
  "not_initialized_message =
     ''Notes system not properly initialized. Please check that you have documents in the ./notes folder.''"

text \<open>
  \<open>summarize_notes\<close> returns what the method returns, \<open>Inl\<close> standing for a raise that
  leaves the method, together with the log of the outside calls it made.
\<close>

definition summarize_notes ::
  "'vs env \<Rightarrow> 'vs NoteReader \<Rightarrow> string \<Rightarrow> (error + string) \<times> call list" where
  "summarize_notes env self query =
     (case rag_chain self of
        None \<Rightarrow> (Inr not_initialized_message, [])
      | Some ch \<Rightarrow>
          (case invoke env ch query of
             (Inr response, log) \<Rightarrow> (Inr response, log)
           | (Inl e, log) \<Rightarrow> (Inr (''Error processing your question: '' @ str e), log)))"

text \<open>
  The start of the module from the line that fixes \<open>config\<close>: the notes directory is
  made, then the one \<open>NoteReader\<close> is constructed. The result is the working directory
  after the start and the reader, or the raise of \<open>mkdir\<close>.
\<close>

definition startup :: "'vs env \<Rightarrow> error + ('vs env \<times> 'vs NoteReader)" where
  "startup env =
     (case mkdir_p (parts (notes_dir config)) (cwd env) of
        Inl e \<Rightarrow> Inl e
      | Inr es \<Rightarrow> Inr (env\<lparr>cwd := es\<rparr>, init (env\<lparr>cwd := es\<rparr>)))"


section \<open>The chunker\<close>

text \<open>
  app.py builds a \<open>RecursiveCharacterTextSplitter\<close> with \<open>chunk_size\<close>, \<open>chunk_overlap\<close>
  and the four separators and calls its \<open>split_documents\<close>; the class itself is library
  code that the repository does not hold. The functions of this section are therefore
  written from the specification's description of the chunker (section 4.2) and take the
  three parameters that app.py passes.
\<close>

text \<open>
  Modelled from the spec: the cut of a text at one separator, which is missing from the
  repository. The text is cut in front of every occurrence of the separator, found from
  left to right without overlap, so the pieces in order make up the text again; the
  character break (the empty separator) cuts between all characters. \<open>k\<close> counts the
  characters of a separator just matched that are still to be passed.
\<close>

fun pieces :: "'a list \<Rightarrow> nat \<Rightarrow> 'a list \<Rightarrow> 'a list \<Rightarrow> 'a list list" where
  "pieces sep k cur [] = [cur]"
| "pieces sep k cur (c # cs) =
     (if k = 0 \<and> take (length sep) (c # cs) = sep
      then cur # pieces sep (length sep - 1) [c] cs
      else pieces sep (k - 1) (cur @ [c]) cs)"

definition split_on :: "'a list \<Rightarrow> 'a list \<Rightarrow> 'a list list" where
  "split_on sep text =
     filter (\<lambda>p. p \<noteq> [])
       (if sep = [] then map (\<lambda>c. [c]) text else pieces sep 0 [] text)"

text \<open>
  Modelled from the spec: the hierarchical split into candidate units, missing from the
  repository. The largest separator is tried first; a piece that still exceeds the chunk
  size falls back to the next finer separator; a piece that exceeds it when no separator
  is left is an indivisible unit.
\<close>

fun units :: "nat \<Rightarrow> 'a list list \<Rightarrow> 'a list \<Rightarrow> 'a list list" where
  "units sz [] text = (if text = [] then [] else [text])"
| "units sz (sep # seps) text =
     concat (map (\<lambda>p. if length p \<le> sz then [p] else units sz seps p) (split_on sep text))"

text \<open>
  Modelled from the spec: the start of a new chunk, missing from the repository. The new
  chunk begins with the trailing units of the chunk before it: leading units are dropped
  until what is left is no longer than the overlap and leaves room for the next unit, of
  length \<open>n\<close>. The overlap is a target: at the boundaries of units it can be shorter than
  asked for (section 9 of the specification).
\<close>

fun trim :: "nat \<Rightarrow> nat \<Rightarrow> nat \<Rightarrow> 'a list list \<Rightarrow> 'a list list" where
  "trim sz ov n [] = []"
| "trim sz ov n (u # us) =
     (if ov < length (concat (u # us)) \<or> sz < length (concat (u # us)) + n
      then trim sz ov n us
      else u # us)"

text \<open>
  Modelled from the spec: the greedy merge of adjacent units, missing from the
  repository. \<open>keep\<close> holds the units taken over from the chunk before, \<open>fresh\<close> the
  units that are new in the current chunk. A unit is added while the chunk stays within
  the chunk size; when the next unit would exceed it, the chunk is emitted and a new one
  starts from the overlap. A unit longer than the chunk size is emitted as a chunk of its
  own. A chunk is emitted as the pair of its overlapping part and its new part.
\<close>

fun merge ::
  "nat \<Rightarrow> nat \<Rightarrow> 'a list list \<Rightarrow> 'a list list \<Rightarrow> 'a list list \<Rightarrow> ('a list \<times> 'a list) list" where
  "merge sz ov keep fresh [] =
     (if fresh = [] then [] else [(concat keep, concat fresh)])"
| "merge sz ov keep fresh (u # us) =
     (if sz < length u then
        (if fresh = [] then [] else [(concat keep, concat fresh)])
        @ ([], u) # merge sz ov [] [] us
      else if length (concat keep) + length (concat fresh) + length u \<le> sz then
        merge sz ov keep (fresh @ [u]) us
      else
        (concat keep, concat fresh)
        # merge sz ov (trim sz ov (length u) (keep @ fresh)) [u] us)"

text \<open>
  Modelled from the spec: the chunker as a whole, missing from the repository. The text
  is split into units, the units are merged; \<open>chunk_pieces\<close> gives every chunk as its
  shared and its new part, \<open>split_text\<close> gives the texts of the chunks in sequence order.
\<close>

definition chunk_pieces :: "nat \<Rightarrow> nat \<Rightarrow> 'a list list \<Rightarrow> 'a list \<Rightarrow> ('a list \<times> 'a list) list" where
  "chunk_pieces sz ov seps text = merge sz ov [] [] (units sz seps text)"

definition split_text :: "nat \<Rightarrow> nat \<Rightarrow> 'a list list \<Rightarrow> 'a list \<Rightarrow> 'a list list" where
  "split_text sz ov seps text =
     map (\<lambda>(shared, new). shared @ new) (chunk_pieces sz ov seps text)"

text \<open>
  For the statement that the shared part of a chunk is an overlap: in a sequence of
  emitted chunks after a text \<open>prev\<close>, the shared part of every chunk is an end of the
  chunk before it.
\<close>

fun linked :: "'a list \<Rightarrow> ('a list \<times> 'a list) list \<Rightarrow> bool" where
  "linked prev [] = True"
| "linked prev ((shared, new) # ps) = (suffix shared prev \<and> linked (shared @ new) ps)"

text \<open>A text of 250 characters with no line break and no space in it.\<close>

definition unbroken_text :: string where
  "unbroken_text =
     ''00abcdefgh01abcdefgh02abcdefgh03abcdefgh04abcdefgh''
     @ ''05abcdefgh06abcdefgh07abcdefgh08abcdefgh09abcdefgh''
     @ ''10abcdefgh11abcdefgh12abcdefgh13abcdefgh14abcdefgh''
     @ ''15abcdefgh16abcdefgh17abcdefgh18abcdefgh19abcdefgh''
     @ ''20abcdefgh21abcdefgh22abcdefgh23abcdefgh24abcdefgh''"

section \<open>Example environments\<close>

text \<open>
  Concrete environments at which the theorems below are instantiated. The vector store
  of the examples is the list of the indexed documents, and its search returns the first
  \<open>k\<close> of them.
\<close>

definition note_a :: Document where
  "note_a = \<lparr>page_content = ''Paris is the capital of France.'',
             metadata = [''source'' \<mapsto> ''notes/a.md'']\<rparr>"

definition note_b :: Document where
  "note_b = \<lparr>page_content = ''Rome is the capital of Italy.'',
             metadata = [''source'' \<mapsto> ''notes/trips/b.md'']\<rparr>"

definition env_one_note :: "Document list env" where
  "env_one_note =
     \<lparr>cwd = [(''notes'', Dir [(''a.md'', File)])],
      TextLoader = (\<lambda>fp. if fp = ''notes/a.md'' then Inr [note_a]
                          else Inl (Exception ''No such file'')),
      PyPDFLoader = (\<lambda>fp. Inl (Exception ''No such file'')),
      Docx2txtLoader = (\<lambda>fp. Inl (Exception ''No such file'')),
      split_documents = (\<lambda>sz ov seps docs. Inr docs),
      from_documents = (\<lambda>docs. Inr docs),
      similarity_search = (\<lambda>vs q k. Inr (take k vs)),
      llm = (\<lambda>prompt. Inr ''Paris. Sources: a.md'')\<rparr>"

definition env_no_directory :: "Document list env" where
  "env_no_directory = env_one_note\<lparr>cwd := [(''app.py'', File)]\<rparr>"

definition env_empty_directory :: "Document list env" where
  "env_empty_directory = env_one_note\<lparr>cwd := [(''notes'', Dir [])]\<rparr>"

definition env_embedding_fails :: "Document list env" where
  "env_embedding_fails =
     env_one_note\<lparr>from_documents := (\<lambda>docs. Inl (Exception ''embedding service unavailable''))\<rparr>"

definition env_corrupt_file :: "Document list env" where
  "env_corrupt_file =
     env_one_note
       \<lparr>cwd := [(''notes'', Dir [(''bad.md'', File), (''a.md'', File)])],
        TextLoader := (\<lambda>fp. if fp = ''notes/a.md'' then Inr [note_a]
                            else Inl (Exception ''invalid start byte''))\<rparr>"

section \<open>Facts about initialization and queries\<close>

lemma parts_notes_dir: "parts (notes_dir config) = [''notes'']"
  by (simp add: config_def parts_def)

lemma summarize_notes_no_chain:
  "rag_chain self = None \<Longrightarrow> summarize_notes env self q = (Inr not_initialized_message, [])"
  by (simp add: summarize_notes_def)

lemma initialize_notes_raise:
  "initialize_body env self = Inl e \<Longrightarrow>
   initialize_notes env self = self\<lparr>notes_content := ''Error loading notes: '' @ str e\<rparr>"
  by (simp add: initialize_notes_def)

lemma initialize_notes_no_documents:
  "load_any_notes env (notes_dir config) = Inr [] \<Longrightarrow>
   initialize_notes env self = self\<lparr>notes_content := no_notes_message\<rparr>"
  by (simp add: initialize_notes_def initialize_body_def)

lemma rglob_one_note_md: "rglob (cwd env_one_note) (notes_dir config) ''.md'' = [''notes/a.md'']"
  by (simp add: rglob_def parts_notes_dir env_one_note_def matching_def fnmatch_def child_def)

lemma rglob_one_note_other:
  "rglob (cwd env_one_note) (notes_dir config) ''.txt'' = []"
  "rglob (cwd env_one_note) (notes_dir config) ''.pdf'' = []"
  "rglob (cwd env_one_note) (notes_dir config) ''.docx'' = []"
  by (simp_all add: rglob_def parts_notes_dir env_one_note_def matching_def fnmatch_def child_def)

lemma load_one_note: "load_any_notes env_one_note (notes_dir config) = Inr [note_a]"
  unfolding load_any_notes_def rglob_one_note_md rglob_one_note_other
  by (simp add: env_one_note_def)

lemma load_any_notes_cong:
  "cwd env' = cwd env \<Longrightarrow> TextLoader env' = TextLoader env \<Longrightarrow>
   PyPDFLoader env' = PyPDFLoader env \<Longrightarrow> Docx2txtLoader env' = Docx2txtLoader env \<Longrightarrow>
   load_any_notes env' d = load_any_notes env d"
  by (simp add: load_any_notes_def cong: sum.case_cong)

lemma body_embedding_fails:
  "initialize_body env_embedding_fails blank = Inl (Exception ''embedding service unavailable'')"
proof -
  have "load_any_notes env_embedding_fails (notes_dir config) = load_any_notes env_one_note (notes_dir config)"
    by (rule load_any_notes_cong) (simp_all add: env_embedding_fails_def)
  then have l: "load_any_notes env_embedding_fails (notes_dir config) = Inr [note_a]"
    by (simp add: load_one_note)
  have s: "split_documents env_embedding_fails (chunk_size config) (chunk_overlap config) separators [note_a]
           = Inr [note_a]"
    by (simp add: env_embedding_fails_def env_one_note_def)
  have f: "from_documents env_embedding_fails [note_a] = Inl (Exception ''embedding service unavailable'')"
    by (simp add: env_embedding_fails_def)
  show ?thesis
    by (simp add: initialize_body_def l s f)
qed

lemma blank_fields:
  "vectorstore blank = None" "retriever blank = None" "rag_chain blank = None"
  "notes_content blank = []"
  by (simp_all add: blank_def)

lemma init_embedding_fails:
  "init env_embedding_fails
   = blank\<lparr>notes_content := ''Error loading notes: embedding service unavailable''\<rparr>"
  by (simp add: init_def initialize_notes_raise [OF body_embedding_fails])

text \<open>
  C1 (as amended). If the body of the \<open>try\<close> in \<open>initialize_notes\<close> raises, whatever
  the step that raised, the constructor catches it: the reader keeps its three unset
  fields, \<open>notes_content\<close> (what \<open>read_notes\<close> returns) is the captured reason after
  the words "Error loading notes: ", and every later call of \<open>summarize_notes\<close>, in
  whatever environment, returns the fixed "not properly initialized" message and makes
  no outside call; it does not raise.
\<close>

theorem initialization_raise_captured:
  assumes "initialize_body env blank = Inl e"
  shows "init env = blank\<lparr>notes_content := ''Error loading notes: '' @ str e\<rparr>
       \<and> read_notes (init env) = ''Error loading notes: '' @ str e
       \<and> (\<forall>env' q. summarize_notes env' (init env) q = (Inr not_initialized_message, []))"
  using assms
  by (simp add: init_def initialize_notes_raise read_notes_def summarize_notes_no_chain blank_fields)

theorem initialization_raise_captured_witness:
  "initialize_body env_embedding_fails blank = Inl (Exception ''embedding service unavailable'')
   \<and> read_notes (init env_embedding_fails) = ''Error loading notes: embedding service unavailable''
   \<and> summarize_notes env_one_note (init env_embedding_fails) ''What is the capital of France?''
       = (Inr not_initialized_message, [])"
proof -
  have h: "initialize_body env_embedding_fails blank = Inl (Exception ''embedding service unavailable'')"
    by (rule body_embedding_fails)
  from initialization_raise_captured [OF h]
  have "read_notes (init env_embedding_fails)
        = ''Error loading notes: '' @ str (Exception ''embedding service unavailable'')"
    and "\<forall>env' q. summarize_notes env' (init env_embedding_fails) q = (Inr not_initialized_message, [])"
    by blast+
  with h show ?thesis by simp
qed

text \<open>
  C1 as stated fails: when the embedding step raises, the answer of a later query is the
  fixed message, which is neither the stored text nor the reason of the exception.
\<close>

theorem failed_query_reason_counterexample:
  "initialize_body env_embedding_fails blank = Inl (Exception ''embedding service unavailable'')
   \<and> notes_content (init env_embedding_fails) = ''Error loading notes: embedding service unavailable''
   \<and> fst (summarize_notes env_embedding_fails (init env_embedding_fails) ''What is the capital of France?'')
       = Inr not_initialized_message
   \<and> not_initialized_message \<noteq> ''Error loading notes: embedding service unavailable''
   \<and> not_initialized_message \<noteq> ''embedding service unavailable''"
  by (simp add: body_embedding_fails init_embedding_fails summarize_notes_no_chain blank_fields
      not_initialized_message_def)


lemma lookup_path_single:
  "lookup_path [p] es = (case map_of es p of None \<Rightarrow> None | Some n \<Rightarrow> Some n)"
  by (simp split: option.splits node.splits)

lemma rglob_empty_dir:
  "lookup_path (parts d) es = Some (Dir []) \<Longrightarrow> rglob es d ext = []"
  by (simp add: rglob_def matching_def)

lemma load_any_notes_empty_dir:
  "lookup_path (parts d) (cwd env) = Some (Dir []) \<Longrightarrow> load_any_notes env d = Inr []"
  by (simp add: load_any_notes_def rglob_empty_dir)

text \<open>
  C5. When the loader finds no document, the constructor leaves the reader in the
  no-documents state: the three fields unset and the "No notes found" text in
  \<open>notes_content\<close>. Every later query, in whatever environment, returns the fixed
  advisory message, and its log of outside calls is empty: neither the retriever nor the
  answer generator is invoked.
\<close>

theorem no_documents_degraded:
  assumes "load_any_notes env (notes_dir config) = Inr []"
  shows "init env = blank\<lparr>notes_content := no_notes_message\<rparr>
       \<and> (\<forall>env' q. summarize_notes env' (init env) q = (Inr not_initialized_message, []))"
  using assms
  by (simp add: init_def initialize_notes_no_documents summarize_notes_no_chain blank_fields)

lemma load_empty_directory: "load_any_notes env_empty_directory (notes_dir config) = Inr []"
  by (rule load_any_notes_empty_dir) (simp add: parts_notes_dir env_empty_directory_def)

theorem no_documents_degraded_witness:
  "load_any_notes env_empty_directory (notes_dir config) = Inr []
   \<and> notes_content (init env_empty_directory) = no_notes_message
   \<and> summarize_notes env_one_note (init env_empty_directory) ''What is the capital of France?''
       = (Inr not_initialized_message, [])"
proof -
  have h: "load_any_notes env_empty_directory (notes_dir config) = Inr []"
    by (rule load_empty_directory)
  from no_documents_degraded [OF h]
  have "init env_empty_directory = blank\<lparr>notes_content := no_notes_message\<rparr>"
    and "\<forall>env' q. summarize_notes env' (init env_empty_directory) q = (Inr not_initialized_message, [])"
    by blast+
  with h show ?thesis by simp
qed

text \<open>
  C6. If the notes directory does not exist when the module starts, the start does not
  raise: the directory is made and is empty, the loader returns the empty list, not an
  error, and the reader is in the no-documents state, where every query is answered by
  the advisory message.
\<close>

theorem cold_start:
  assumes "lookup_path (parts (notes_dir config)) (cwd env) = None"
  shows "\<exists>env' reader. startup env = Inr (env', reader)
           \<and> lookup_path (parts (notes_dir config)) (cwd env') = Some (Dir [])
           \<and> load_any_notes env' (notes_dir config) = Inr []
           \<and> reader = blank\<lparr>notes_content := no_notes_message\<rparr>
           \<and> (\<forall>q. summarize_notes env' reader q = (Inr not_initialized_message, []))"
proof -
  let ?es = "cwd env @ [(''notes'', Dir [])]"
  let ?env = "env\<lparr>cwd := ?es\<rparr>"
  from assms have none: "map_of (cwd env) ''notes'' = None"
    by (simp add: parts_notes_dir split: option.splits node.splits if_splits)
  then have mk: "mkdir_p (parts (notes_dir config)) (cwd env) = Inr ?es"
    by (simp add: parts_notes_dir)
  have look: "lookup_path (parts (notes_dir config)) (cwd ?env) = Some (Dir [])"
    using none by (simp add: parts_notes_dir map_add_def)
  then have load: "load_any_notes ?env (notes_dir config) = Inr []"
    by (rule load_any_notes_empty_dir)
  have st: "startup env = Inr (?env, init ?env)"
    by (simp add: startup_def mk)
  from load have i: "init ?env = blank\<lparr>notes_content := no_notes_message\<rparr>"
    by (simp add: init_def initialize_notes_no_documents)
  then have q: "\<forall>q. summarize_notes ?env (init ?env) q = (Inr not_initialized_message, [])"
    by (simp add: summarize_notes_no_chain blank_fields)
  from st i have "startup env = Inr (?env, blank\<lparr>notes_content := no_notes_message\<rparr>)"
    by simp
  moreover from q i
  have "\<forall>q. summarize_notes ?env (blank\<lparr>notes_content := no_notes_message\<rparr>) q
            = (Inr not_initialized_message, [])"
    by simp
  ultimately show ?thesis using look load by blast
qed

theorem cold_start_witness:
  "lookup_path (parts (notes_dir config)) (cwd env_no_directory) = None
   \<and> startup env_no_directory
       = Inr (env_no_directory\<lparr>cwd := [(''app.py'', File), (''notes'', Dir [])]\<rparr>,
              blank\<lparr>notes_content := no_notes_message\<rparr>)"
proof -
  have h: "lookup_path (parts (notes_dir config)) (cwd env_no_directory) = None"
    by (simp add: parts_notes_dir env_no_directory_def)
  from cold_start [OF h] obtain env' reader where
    "startup env_no_directory = Inr (env', reader)" "reader = blank\<lparr>notes_content := no_notes_message\<rparr>"
    by blast
  moreover have "mkdir_p (parts (notes_dir config)) (cwd env_no_directory)
                 = Inr [(''app.py'', File), (''notes'', Dir [])]"
    by (simp add: parts_notes_dir env_no_directory_def)
  ultimately show ?thesis using h
    by (auto simp add: startup_def env_no_directory_def)
qed

text \<open>
  C8. For every environment, every state of the reader and every question,
  \<open>summarize_notes\<close> returns a string and no exception leaves it. The string is the
  advisory message when there is no chain, the answer of the chain when the chain
  returns, and the error message with the reason when the chain raises.
\<close>

theorem summarize_notes_returns_string:
  "\<exists>answer. fst (summarize_notes env self query) = Inr answer
     \<and> (rag_chain self = None \<and> answer = not_initialized_message
        \<or> (\<exists>ch. rag_chain self = Some ch \<and> fst (invoke env ch query) = Inr answer)
        \<or> (\<exists>ch e. rag_chain self = Some ch \<and> fst (invoke env ch query) = Inl e
               \<and> answer = ''Error processing your question: '' @ str e))"
  by (cases "rag_chain self")
     (auto simp add: summarize_notes_def split: prod.splits sum.splits)


subsection \<open>The loader\<close>

lemma load_each_files: "load_each l ps docs = load_files (map (Pair l) ps) docs"
  by (induction ps arbitrary: docs) (simp_all add: load_file_def split: sum.splits)

lemma load_files_append:
  "load_files (js @ ks) docs =
     (case load_files js docs of Inl e \<Rightarrow> Inl e | Inr ds \<Rightarrow> load_files ks ds)"
  by (induction js arbitrary: docs) (simp_all split: sum.splits)

lemma load_any_notes_files: "load_any_notes env d = load_files (discovered env d) []"
  by (simp add: load_any_notes_def discovered_def load_each_files load_files_append
      split: sum.splits)

lemma load_files_all:
  "\<forall>j \<in> set js. \<exists>ds. load_file j = Inr ds \<Longrightarrow>
   load_files js docs = Inr (docs @ concat (map (\<lambda>j. projr (load_file j)) js))"
  by (induction js arbitrary: docs) auto

lemma load_files_first_failure:
  "\<forall>k \<in> set pre. \<exists>ds. load_file k = Inr ds \<Longrightarrow> load_file j = Inl e \<Longrightarrow>
   load_files (pre @ j # post) docs = Inl e"
  by (induction pre arbitrary: docs) auto

lemma initialize_body_load_raise:
  "load_any_notes env (notes_dir config) = Inl e \<Longrightarrow> initialize_body env self = Inl e"
  by (simp add: initialize_body_def)

text \<open>
  C2 (as amended). The loader goes through the discovered files in order. When every
  file loads, it returns the documents of all of them, in that order. When the load of
  a file raises, the files before it having loaded, the loader raises that exception and
  returns no documents: the files after it are not loaded. The constructor catches the
  exception and stores its reason.
\<close>

theorem load_any_notes_stops_at_failure:
  "((\<forall>j \<in> set (discovered env d). \<exists>ds. load_file j = Inr ds) \<longrightarrow>
      load_any_notes env d = Inr (concat (map (\<lambda>j. projr (load_file j)) (discovered env d))))
   \<and> (discovered env d = pre @ j # post \<and> (\<forall>k \<in> set pre. \<exists>ds. load_file k = Inr ds)
        \<and> load_file j = Inl e \<longrightarrow> load_any_notes env d = Inl e)
   \<and> (load_any_notes env (notes_dir config) = Inl e \<longrightarrow>
        init env = blank\<lparr>notes_content := ''Error loading notes: '' @ str e\<rparr>)"
proof (intro conjI impI)
  assume "\<forall>j \<in> set (discovered env d). \<exists>ds. load_file j = Inr ds"
  then show "load_any_notes env d = Inr (concat (map (\<lambda>j. projr (load_file j)) (discovered env d)))"
    by (simp add: load_any_notes_files load_files_all)
next
  assume a: "discovered env d = pre @ j # post \<and> (\<forall>k \<in> set pre. \<exists>ds. load_file k = Inr ds)
        \<and> load_file j = Inl e"
  then have "load_files (pre @ j # post) [] = Inl e"
    by (intro load_files_first_failure) simp_all
  with a show "load_any_notes env d = Inl e"
    by (simp add: load_any_notes_files)
next
  assume "load_any_notes env (notes_dir config) = Inl e"
  then show "init env = blank\<lparr>notes_content := ''Error loading notes: '' @ str e\<rparr>"
    by (simp add: init_def initialize_notes_raise initialize_body_load_raise)
qed

lemma discovered_corrupt:
  "discovered env_corrupt_file (notes_dir config)
   = [(TextLoader env_corrupt_file, ''notes/bad.md''), (TextLoader env_corrupt_file, ''notes/a.md'')]"
  by (simp add: discovered_def rglob_def parts_notes_dir env_corrupt_file_def env_one_note_def
      matching_def fnmatch_def child_def)

lemma discovered_one_note:
  "discovered env_one_note (notes_dir config) = [(TextLoader env_one_note, ''notes/a.md'')]"
  by (simp add: discovered_def rglob_one_note_md rglob_one_note_other)

text \<open>
  C2 as stated fails: with one file that cannot be decoded and one that loads, the loader
  raises instead of returning the document of the file that loads.
\<close>

theorem skips_corrupt_file_counterexample:
  "discovered env_corrupt_file (notes_dir config)
   = [(TextLoader env_corrupt_file, ''notes/bad.md''), (TextLoader env_corrupt_file, ''notes/a.md'')]
   \<and> TextLoader env_corrupt_file ''notes/bad.md'' = Inl (Exception ''invalid start byte'')
   \<and> TextLoader env_corrupt_file ''notes/a.md'' = Inr [note_a]
   \<and> load_any_notes env_corrupt_file (notes_dir config) = Inl (Exception ''invalid start byte'')
   \<and> load_any_notes env_corrupt_file (notes_dir config) \<noteq> Inr [note_a]"
  by (simp add: load_any_notes_files discovered_corrupt load_file_def)
     (simp add: env_corrupt_file_def)

theorem load_any_notes_stops_at_failure_witness:
  "discovered env_one_note (notes_dir config) = [(TextLoader env_one_note, ''notes/a.md'')]
   \<and> load_file (TextLoader env_one_note, ''notes/a.md'') = Inr [note_a]
   \<and> load_any_notes env_one_note (notes_dir config) = Inr [note_a]
   \<and> discovered env_corrupt_file (notes_dir config)
       = [] @ (TextLoader env_corrupt_file, ''notes/bad.md'') # [(TextLoader env_corrupt_file, ''notes/a.md'')]
   \<and> load_file (TextLoader env_corrupt_file, ''notes/bad.md'') = Inl (Exception ''invalid start byte'')
   \<and> load_any_notes env_corrupt_file (notes_dir config) = Inl (Exception ''invalid start byte'')
   \<and> init env_corrupt_file = blank\<lparr>notes_content := ''Error loading notes: invalid start byte''\<rparr>"
proof -
  have a: "load_file (TextLoader env_one_note, ''notes/a.md'') = Inr [note_a]"
    by (simp add: load_file_def env_one_note_def)
  have b: "load_file (TextLoader env_corrupt_file, ''notes/bad.md'') = Inl (Exception ''invalid start byte'')"
    by (simp add: load_file_def env_corrupt_file_def)
  have all: "\<forall>j \<in> set (discovered env_one_note (notes_dir config)). \<exists>ds. load_file j = Inr ds"
    by (simp add: discovered_one_note a)
  have c: "discovered env_corrupt_file (notes_dir config)
       = [] @ (TextLoader env_corrupt_file, ''notes/bad.md'') # [(TextLoader env_corrupt_file, ''notes/a.md'')]"
    by (simp add: discovered_corrupt)
  from load_any_notes_stops_at_failure [of env_one_note "notes_dir config"] all
  have one: "load_any_notes env_one_note (notes_dir config) = Inr [note_a]"
    by (simp add: discovered_one_note a)
  from load_any_notes_stops_at_failure
         [of env_corrupt_file "notes_dir config" "[]" "(TextLoader env_corrupt_file, ''notes/bad.md'')"
             "[(TextLoader env_corrupt_file, ''notes/a.md'')]" "Exception ''invalid start byte''"] b c
  have two: "load_any_notes env_corrupt_file (notes_dir config) = Inl (Exception ''invalid start byte'')"
    and three: "init env_corrupt_file = blank\<lparr>notes_content := ''Error loading notes: invalid start byte''\<rparr>"
    by simp_all
  from a b c one two three discovered_one_note show ?thesis by blast
qed


subsection \<open>The invariant of the reader\<close>












subsection \<open>The context of a query\<close>

lemma foldl_append_entry: "foldl (\<lambda>acc d. acc @ [f d]) acc docs = acc @ map f docs"
  by (induction docs arbitrary: acc) simp_all

lemma format_docs_join:
  "format_docs docs =
     join context_separator
       (map (\<lambda>d. ''[SOURCE: '' @ source_name d @ '']'' @ [CHR 0x0A] @ page_content d) docs)"
  by (simp add: format_docs_def foldl_append_entry)

lemma split_slash_no_slash:
  "CHR ''/'' \<notin> set cur \<Longrightarrow> p \<in> set (split_slash cur s) \<Longrightarrow> CHR ''/'' \<notin> set p"
proof (induction s arbitrary: cur)
  case Nil
  then show ?case by simp
next
  case (Cons c s)
  show ?case
  proof (cases "c = CHR ''/''")
    case True
    with Cons.prems have "p = cur \<or> p \<in> set (split_slash [] s)" by simp
    then show ?thesis
    proof
      assume "p = cur"
      with Cons.prems show ?thesis by simp
    next
      assume "p \<in> set (split_slash [] s)"
      with Cons.IH [of "[]"] show ?thesis by simp
    qed
  next
    case False
    with Cons.prems have "p \<in> set (split_slash (cur @ [c]) s)" by simp
    with Cons.IH [of "cur @ [c]"] Cons.prems False show ?thesis by simp
  qed
qed

lemma Path_name_no_slash: "CHR ''/'' \<notin> set (Path_name s)"
proof (cases "parts s = []")
  case True
  then show ?thesis by (simp add: Path_name_def)
next
  case False
  then have "last (parts s) \<in> set (parts s)" by simp
  then have "last (parts s) \<in> set (split_slash [] s)" by (simp add: parts_def)
  then have "CHR ''/'' \<notin> set (last (parts s))"
    using split_slash_no_slash [of "[]"] by simp
  with False show ?thesis by (simp add: Path_name_def)
qed

lemma split_slash_plain: "CHR ''/'' \<notin> set name \<Longrightarrow> split_slash cur name = [cur @ name]"
  by (induction name arbitrary: cur) auto

lemma split_slash_last:
  "CHR ''/'' \<notin> set name \<Longrightarrow> \<exists>ys. split_slash cur (xs @ CHR ''/'' # name) = ys @ [name]"
proof (induction xs arbitrary: cur)
  case Nil
  then show ?case by (simp add: split_slash_plain)
next
  case (Cons x xs)
  show ?case
  proof (cases "x = CHR ''/''")
    case True
    from Cons.IH [OF Cons.prems, of "[]"] obtain ys
      where "split_slash [] (xs @ CHR ''/'' # name) = ys @ [name]" by blast
    with True have "split_slash cur ((x # xs) @ CHR ''/'' # name) = (cur # ys) @ [name]" by simp
    then show ?thesis by blast
  next
    case False
    with Cons.IH [OF Cons.prems, of "cur @ [x]"] show ?thesis by simp
  qed
qed

lemma Path_name_last:
  assumes "CHR ''/'' \<notin> set name" "name \<noteq> []" "name \<noteq> ''.''"
  shows "Path_name (dir @ ''/'' @ name) = name"
proof -
  from split_slash_last [OF assms(1), of "[]" dir] obtain ys
    where "split_slash [] (dir @ CHR ''/'' # name) = ys @ [name]" by blast
  with assms show ?thesis by (simp add: Path_name_def parts_def)
qed

text \<open>
  C7. \<open>format_docs\<close> is a function of its input: the entries of the documents in the
  order given, joined by the fixed separator, each entry being the text of the document
  after the tag \<open>[SOURCE: name]\<close> and a line break. The name in the tag never has a
  slash in it, and for a source path that ends in a file name after a slash it is that
  file name alone.
\<close>

theorem format_docs_context:
  "format_docs docs =
     join context_separator
       (map (\<lambda>d. ''[SOURCE: '' @ source_name d @ '']'' @ [CHR 0x0A] @ page_content d) docs)
   \<and> format_docs (d # d' # ds) =
       ''[SOURCE: '' @ source_name d @ '']'' @ [CHR 0x0A] @ page_content d
       @ context_separator @ format_docs (d' # ds)
   \<and> CHR ''/'' \<notin> set (source_name d)
   \<and> (metadata d ''source'' = Some (dir @ ''/'' @ name) \<and> CHR ''/'' \<notin> set name
        \<and> name \<noteq> [] \<and> name \<noteq> ''.'' \<longrightarrow> source_name d = name)"
proof (intro conjI impI)
  show "format_docs docs =
     join context_separator
       (map (\<lambda>d. ''[SOURCE: '' @ source_name d @ '']'' @ [CHR 0x0A] @ page_content d) docs)"
    by (rule format_docs_join)
  show "format_docs (d # d' # ds) =
       ''[SOURCE: '' @ source_name d @ '']'' @ [CHR 0x0A] @ page_content d
       @ context_separator @ format_docs (d' # ds)"
    by (simp add: format_docs_join)
  show "CHR ''/'' \<notin> set (source_name d)"
    by (simp add: source_name_def Path_name_no_slash)
next
  assume a: "metadata d ''source'' = Some (dir @ ''/'' @ name) \<and> CHR ''/'' \<notin> set name
        \<and> name \<noteq> [] \<and> name \<noteq> ''.''"
  then have "Path_name (dir @ ''/'' @ name) = name"
    by (intro Path_name_last) simp_all
  with a show "source_name d = name"
    by (simp add: source_name_def get_def)
qed

theorem format_docs_context_witness:
  "metadata note_b ''source'' = Some (''notes/trips'' @ ''/'' @ ''b.md'')
   \<and> CHR ''/'' \<notin> set ''b.md'' \<and> ''b.md'' \<noteq> [] \<and> ''b.md'' \<noteq> ''.''
   \<and> source_name note_b = ''b.md''
   \<and> format_docs [note_a, note_b]
       = ''[SOURCE: a.md]'' @ [CHR 0x0A] @ ''Paris is the capital of France.''
         @ [CHR 0x0A, CHR 0x0A] @ ''---'' @ [CHR 0x0A, CHR 0x0A]
         @ ''[SOURCE: b.md]'' @ [CHR 0x0A] @ ''Rome is the capital of Italy.''"
proof -
  have h: "metadata note_b ''source'' = Some (''notes/trips'' @ ''/'' @ ''b.md'')"
    by (simp add: note_b_def)
  from format_docs_context [of "[note_a, note_b]" note_b note_a "[]" "''notes/trips''" "''b.md''"] h
  have b: "source_name note_b = ''b.md''"
    and j: "format_docs [note_a, note_b] =
     join context_separator
       (map (\<lambda>d. ''[SOURCE: '' @ source_name d @ '']'' @ [CHR 0x0A] @ page_content d) [note_a, note_b])"
    by simp_all
  from format_docs_context [of "[]" note_a note_a "[]" "''notes''" "''a.md''"]
  have a: "source_name note_a = ''a.md''"
    by (simp add: note_a_def)
  from h a b j show ?thesis
    by (simp add: context_separator_def note_a_def note_b_def)
qed


section \<open>Facts about the chunker\<close>

lemma concat_pieces: "concat (pieces sep k cur text) = cur @ text"
  by (induction "text" arbitrary: k cur) simp_all

lemma concat_filter_nonempty: "concat (filter (\<lambda>p. p \<noteq> []) xss) = concat xss"
  by (induction xss) simp_all

lemma concat_singletons: "concat (map (\<lambda>c. [c]) xs) = xs"
  by (induction xs) simp_all

lemma concat_split_on: "concat (split_on sep text) = text"
  by (simp add: split_on_def concat_filter_nonempty concat_pieces concat_singletons)

lemma concat_units: "concat (units sz seps text) = text"
proof (induction seps arbitrary: "text")
  case Nil
  then show ?case by simp
next
  case (Cons sep seps)
  have "concat (concat (map (\<lambda>p. if length p \<le> sz then [p] else units sz seps p) ps)) = concat ps" for ps
    by (induction ps) (simp_all add: Cons.IH)
  then show ?case by (simp add: concat_split_on)
qed

lemma concat_merge_new:
  "concat (map snd (merge sz ov keep fresh us)) = concat fresh @ concat us"
  by (induction us arbitrary: keep fresh) simp_all

lemma suffix_trim: "suffix (trim sz ov n us) us"
  by (induction us) (auto intro: suffix_ConsI)

lemma suffix_concat: "suffix xs ys \<Longrightarrow> suffix (concat xs) (concat ys)"
  by (auto simp add: suffix_def)

lemma linked_merge:
  "suffix (concat keep) prev \<Longrightarrow> linked prev (merge sz ov keep fresh us)"
proof (induction us arbitrary: keep fresh prev)
  case Nil
  then show ?case by simp
next
  case (Cons u us)
  have t: "suffix (concat (trim sz ov (length u) (keep @ fresh))) (concat keep @ concat fresh)"
    using suffix_concat [OF suffix_trim [of sz ov "length u" "keep @ fresh"]] by simp
  from Cons.prems Cons.IH [of "[]"] Cons.IH [of keep prev] Cons.IH [OF t] show ?case
    by simp
qed

lemma linked_nth:
  "linked prev ps \<Longrightarrow> Suc i < length ps \<Longrightarrow>
   suffix (fst (ps ! Suc i)) (fst (ps ! i) @ snd (ps ! i))"
proof (induction ps arbitrary: prev i)
  case Nil
  then show ?case by simp
next
  case (Cons p ps)
  obtain a b where p: "p = (a, b)" by (cases p)
  show ?case
  proof (cases i)
    case 0
    with Cons.prems p obtain q qs where "ps = q # qs" by (cases ps) auto
    with Cons.prems p 0 show ?thesis by (cases q) simp
  next
    case (Suc j)
    with Cons.prems p Cons.IH [of "a @ b" j] show ?thesis by simp
  qed
qed

lemma merge_first_shared:
  "ps = merge sz ov keep fresh us \<Longrightarrow> ps \<noteq> [] \<Longrightarrow> keep = [] \<Longrightarrow> fst (hd ps) = []"
  by (induction us arbitrary: fresh ps) (auto split: if_splits)

text \<open>
  C3. Every chunk is its shared part followed by its new part. The shared part of the
  first chunk is empty, the shared part of every later chunk is an end of the chunk before
  it, and the new parts of the chunks, concatenated in order, are the text of the
  document.
\<close>

theorem chunks_reconstruct_text:
  "concat (map snd (chunk_pieces sz ov seps text)) = text
   \<and> split_text sz ov seps text
       = map (\<lambda>(shared, new). shared @ new) (chunk_pieces sz ov seps text)
   \<and> (chunk_pieces sz ov seps text \<noteq> [] \<longrightarrow> fst (hd (chunk_pieces sz ov seps text)) = [])
   \<and> (Suc i < length (chunk_pieces sz ov seps text) \<longrightarrow>
        suffix (fst (chunk_pieces sz ov seps text ! Suc i)) (split_text sz ov seps text ! i))"
proof (intro conjI impI)
  show "concat (map snd (chunk_pieces sz ov seps text)) = text"
    by (simp add: chunk_pieces_def concat_merge_new concat_units)
  show "split_text sz ov seps text
       = map (\<lambda>(shared, new). shared @ new) (chunk_pieces sz ov seps text)"
    by (simp add: split_text_def)
next
  assume "chunk_pieces sz ov seps text \<noteq> []"
  then show "fst (hd (chunk_pieces sz ov seps text)) = []"
    using merge_first_shared [of "chunk_pieces sz ov seps text" sz ov "[]" "[]" "units sz seps text"]
    by (simp add: chunk_pieces_def)
next
  assume i: "Suc i < length (chunk_pieces sz ov seps text)"
  have "linked [] (chunk_pieces sz ov seps text)"
    unfolding chunk_pieces_def by (rule linked_merge) simp
  from linked_nth [OF this i] i
  show "suffix (fst (chunk_pieces sz ov seps text ! Suc i)) (split_text sz ov seps text ! i)"
    by (simp add: split_text_def case_prod_unfold)
qed

lemma pieces_alphabet:
  "chunk_pieces 10 3 [[]] ''abcdefghijklmnopqrstuvwxyz''
     = [([], ''abcdefghij''), (''hij'', ''klmnopq''), (''opq'', ''rstuvwx''), (''vwx'', ''yz'')]"
  by (simp add: chunk_pieces_def split_on_def)

theorem chunks_reconstruct_text_witness:
  "chunk_pieces 10 3 [[]] ''abcdefghijklmnopqrstuvwxyz''
     = [([], ''abcdefghij''), (''hij'', ''klmnopq''), (''opq'', ''rstuvwx''), (''vwx'', ''yz'')]
   \<and> split_text 10 3 [[]] ''abcdefghijklmnopqrstuvwxyz''
     = [''abcdefghij'', ''hijklmnopq'', ''opqrstuvwx'', ''vwxyz'']
   \<and> Suc 0 < length (chunk_pieces 10 3 [[]] ''abcdefghijklmnopqrstuvwxyz'')
   \<and> suffix ''hij'' ''abcdefghij''
   \<and> concat [''abcdefghij'', ''klmnopq'', ''rstuvwx'', ''yz''] = ''abcdefghijklmnopqrstuvwxyz''"
proof -
  note p = pieces_alphabet
  have ne: "chunk_pieces 10 3 [[]] ''abcdefghijklmnopqrstuvwxyz'' \<noteq> []"
    and l: "Suc 0 < length (chunk_pieces 10 3 [[]] ''abcdefghijklmnopqrstuvwxyz'')"
    by (simp_all add: p)
  from chunks_reconstruct_text [of 10 3 "[[]]" "''abcdefghijklmnopqrstuvwxyz''" 0] ne l
  have "concat (map snd (chunk_pieces 10 3 [[]] ''abcdefghijklmnopqrstuvwxyz''))
          = ''abcdefghijklmnopqrstuvwxyz''"
    and "split_text 10 3 [[]] ''abcdefghijklmnopqrstuvwxyz''
       = map (\<lambda>(shared, new). shared @ new) (chunk_pieces 10 3 [[]] ''abcdefghijklmnopqrstuvwxyz'')"
    and "suffix (fst (chunk_pieces 10 3 [[]] ''abcdefghijklmnopqrstuvwxyz'' ! Suc 0))
           (split_text 10 3 [[]] ''abcdefghijklmnopqrstuvwxyz'' ! 0)"
    by blast+
  with p l show ?thesis by simp
qed


lemma trim_leaves_room:
  "n \<le> sz \<Longrightarrow> length (concat (trim sz ov n us)) + n \<le> sz"
  by (induction us) auto

lemma merge_bound:
  "length (concat keep) + length (concat fresh) \<le> sz \<Longrightarrow>
   (shared, new) \<in> set (merge sz ov keep fresh us) \<Longrightarrow>
   length (shared @ new) \<le> sz \<or> (shared = [] \<and> new \<in> set us \<and> sz < length new)"
proof (induction us arbitrary: keep fresh)
  case Nil
  then show ?case by (auto split: if_splits)
next
  case (Cons u us)
  show ?case
  proof (cases "sz < length u")
    case True
    with Cons.prems(2) have
      "(shared, new) = (concat keep, concat fresh) \<or> (shared, new) = ([], u)
       \<or> (shared, new) \<in> set (merge sz ov [] [] us)"
      by (auto split: if_splits)
    with Cons.prems(1) True Cons.IH [of "[]" "[]"] show ?thesis by auto
  next
    case small: False
    show ?thesis
    proof (cases "length (concat keep) + length (concat fresh) + length u \<le> sz")
      case True
      with small Cons.prems(2) have "(shared, new) \<in> set (merge sz ov keep (fresh @ [u]) us)"
        by simp
      with True Cons.IH [of keep "fresh @ [u]"] show ?thesis by auto
    next
      case False
      with small Cons.prems(2) have
        "(shared, new) = (concat keep, concat fresh)
         \<or> (shared, new) \<in> set (merge sz ov (trim sz ov (length u) (keep @ fresh)) [u] us)"
        by simp
      moreover have "length (concat (trim sz ov (length u) (keep @ fresh))) + length (concat [u]) \<le> sz"
        using small trim_leaves_room [of "length u" sz ov "keep @ fresh"] by simp
      ultimately show ?thesis
        using Cons.prems(1) Cons.IH [of "trim sz ov (length u) (keep @ fresh)" "[u]"] by auto
    qed
  qed
qed

lemma merge_oversized:
  "u \<in> set us \<Longrightarrow> sz < length u \<Longrightarrow> ([], u) \<in> set (merge sz ov keep fresh us)"
  by (induction us arbitrary: keep fresh) auto

lemma split_on_character_break: "p \<in> set (split_on [] text) \<Longrightarrow> length p = 1"
  by (auto simp add: split_on_def)

lemma units_bound:
  "0 < sz \<Longrightarrow> [] \<in> set seps \<Longrightarrow> u \<in> set (units sz seps text) \<Longrightarrow> length u \<le> sz"
proof (induction seps arbitrary: "text")
  case Nil
  then show ?case by simp
next
  case (Cons sep seps)
  from Cons.prems(3) obtain p where p: "p \<in> set (split_on sep text)"
    and u: "u \<in> set (if length p \<le> sz then [p] else units sz seps p)"
    by auto
  show ?case
  proof (cases "length p \<le> sz")
    case True
    with u show ?thesis by simp
  next
    case False
    with p Cons.prems(1) have "sep \<noteq> []"
      using split_on_character_break [of p "text"] by auto
    with Cons.prems(2) have "[] \<in> set seps" by auto
    with False u Cons.IH [OF Cons.prems(1), of p] show ?thesis by simp
  qed
qed

text \<open>
  C4. If every unit that the split by the separators yields is no longer than the chunk
  size, then so is every chunk. A unit that is longer than the chunk size is emitted as a
  chunk of its own, with no shared part and nothing merged into it. In general a chunk
  is within the chunk size or is such a unit. With a positive chunk size and the
  character break among the separators, as in app.py, no unit is longer than the chunk
  size.
\<close>

theorem chunk_length_bound:
  "((\<forall>u \<in> set (units sz seps text). length u \<le> sz) \<longrightarrow>
      (\<forall>c \<in> set (split_text sz ov seps text). length c \<le> sz))
   \<and> (u \<in> set (units sz seps text) \<and> sz < length u \<longrightarrow>
        ([], u) \<in> set (chunk_pieces sz ov seps text) \<and> u \<in> set (split_text sz ov seps text))
   \<and> (c \<in> set (split_text sz ov seps text) \<longrightarrow>
        length c \<le> sz \<or> c \<in> set (units sz seps text))
   \<and> (0 < sz \<and> [] \<in> set seps \<longrightarrow> (\<forall>u \<in> set (units sz seps text). length u \<le> sz))"
proof -
  have general: "length c \<le> sz \<or> (c \<in> set (units sz seps text) \<and> sz < length c)"
    if "c \<in> set (split_text sz ov seps text)" for c
  proof -
    from that obtain shared new where sn: "(shared, new) \<in> set (chunk_pieces sz ov seps text)"
      and c: "c = shared @ new"
      by (auto simp add: split_text_def)
    from sn have "(shared, new) \<in> set (merge sz ov [] [] (units sz seps text))"
      by (simp add: chunk_pieces_def)
    from merge_bound [OF _ this] c show ?thesis by auto
  qed
  have over: "([], u) \<in> set (chunk_pieces sz ov seps text) \<and> u \<in> set (split_text sz ov seps text)"
    if "u \<in> set (units sz seps text)" "sz < length u"
  proof -
    from that have "([], u) \<in> set (chunk_pieces sz ov seps text)"
      by (simp add: chunk_pieces_def merge_oversized)
    then show ?thesis by (force simp add: split_text_def)
  qed
  from general over units_bound [of sz seps _ "text"] show ?thesis
    by (intro conjI impI ballI) force+
qed

lemma units_long_word:
  "units 10 [''  '', '' ''] ''hello worldthisisverylong is a b''
   = [''hello'', '' worldthisisverylong'', '' is'', '' a'', '' b'']"
  by (simp add: split_on_def)

lemma units_alphabet:
  "units 10 [[]] ''abcdefghijklmnopqrstuvwxyz''
   = [''a'', ''b'', ''c'', ''d'', ''e'', ''f'', ''g'', ''h'', ''i'', ''j'', ''k'', ''l'', ''m'',
      ''n'', ''o'', ''p'', ''q'', ''r'', ''s'', ''t'', ''u'', ''v'', ''w'', ''x'', ''y'', ''z'']"
  by (simp add: split_on_def)

theorem chunk_length_bound_witness:
  "'' worldthisisverylong'' \<in> set (units 10 [''  '', '' ''] ''hello worldthisisverylong is a b'')
   \<and> 10 < length '' worldthisisverylong''
   \<and> ([], '' worldthisisverylong'')
       \<in> set (chunk_pieces 10 3 [''  '', '' ''] ''hello worldthisisverylong is a b'')
   \<and> '' worldthisisverylong''
       \<in> set (split_text 10 3 [''  '', '' ''] ''hello worldthisisverylong is a b'')
   \<and> 0 < (10 :: nat) \<and> [] \<in> set [[] :: string]
   \<and> ''hijklmnopq'' \<in> set (split_text 10 3 [[]] ''abcdefghijklmnopqrstuvwxyz'')
   \<and> length ''hijklmnopq'' \<le> 10"
proof -
  have u: "'' worldthisisverylong'' \<in> set (units 10 [''  '', '' ''] ''hello worldthisisverylong is a b'')"
    unfolding units_long_word by simp
  have l: "10 < length '' worldthisisverylong''" by simp
  have all: "\<forall>u \<in> set (units 10 [[]] ''abcdefghijklmnopqrstuvwxyz''). length u \<le> 10"
    unfolding units_alphabet by simp
  have c: "''hijklmnopq'' \<in> set (split_text 10 3 [[]] ''abcdefghijklmnopqrstuvwxyz'')"
    unfolding split_text_def pieces_alphabet by simp
  from chunk_length_bound [of 10 "[''  '', '' '']" "''hello worldthisisverylong is a b''" 3
         "'' worldthisisverylong''"] u l
  have over: "([], '' worldthisisverylong'')
       \<in> set (chunk_pieces 10 3 [''  '', '' ''] ''hello worldthisisverylong is a b'')
     \<and> '' worldthisisverylong''
       \<in> set (split_text 10 3 [''  '', '' ''] ''hello worldthisisverylong is a b'')"
    by blast
  from chunk_length_bound [of 10 "[[]]" "''abcdefghijklmnopqrstuvwxyz''" 3] all c
  have "length ''hijklmnopq'' \<le> 10"
    by blast
  with u l over c show ?thesis by simp
qed


lemma pieces_absent:
  "sep \<noteq> [] \<Longrightarrow> hd sep \<notin> set t \<Longrightarrow> pieces sep k cur t = [cur @ t]"
proof (induction t arbitrary: k cur)
  case Nil
  then show ?case by simp
next
  case (Cons c cs)
  from Cons.prems have "take (length sep) (c # cs) \<noteq> sep"
    by (cases sep) auto
  with Cons show ?case by simp
qed

lemma split_on_absent:
  "sep \<noteq> [] \<Longrightarrow> hd sep \<notin> set t \<Longrightarrow> t \<noteq> [] \<Longrightarrow> split_on sep t = [t]"
  by (simp add: split_on_def pieces_absent)

lemma units_characters:
  "0 < sz \<Longrightarrow> units sz [[]] t = map (\<lambda>c. [c]) t"
proof -
  assume sz: "0 < sz"
  have f: "filter (\<lambda>p. p \<noteq> []) (map (\<lambda>c. [c]) t) = map (\<lambda>c. [c]) t"
    by (induction t) simp_all
  have "concat (map (\<lambda>p. if length p \<le> sz then [p] else units sz [] p) (map (\<lambda>c. [c]) xs))
        = map (\<lambda>c. [c]) xs" for xs :: "'a list"
    using sz by (induction xs) simp_all
  then show ?thesis by (simp add: split_on_def f)
qed

lemma units_unbroken:
  assumes "0 < sz" "sz < length t" "CHR 0x0A \<notin> set t" "CHR '' '' \<notin> set t"
  shows "units sz separators t = map (\<lambda>c. [c]) t"
proof -
  from assms(2) have ne: "t \<noteq> []" by auto
  have a: "split_on [CHR 0x0A, CHR 0x0A] t = [t]"
    using assms(3) ne by (intro split_on_absent) simp_all
  have b: "split_on [CHR 0x0A] t = [t]"
    using assms(3) ne by (intro split_on_absent) simp_all
  have c: "split_on '' '' t = [t]"
    using assms(4) ne by (intro split_on_absent) simp_all
  have step: "units sz (sep # seps) t = units sz seps t" if "split_on sep t = [t]" for sep seps
    using that assms(2) by simp
  have "units sz separators t = units sz [[]] t"
    unfolding separators_def by (simp only: step [OF a] step [OF b] step [OF c])
  with assms(1) show ?thesis by (simp only: units_characters)
qed

lemma concat_characters: "concat (map (\<lambda>c. [c]) xs) = xs"
  by (induction xs) simp_all

lemma merge_fill:
  "length (concat keep) + length (concat fresh) + length xs \<le> sz \<Longrightarrow>
   merge sz ov keep fresh (map (\<lambda>c. [c]) xs @ rest)
   = merge sz ov keep (fresh @ map (\<lambda>c. [c]) xs) rest"
  by (induction xs arbitrary: fresh) simp_all

lemma merge_full:
  "0 < sz \<Longrightarrow> length (concat keep) + length (concat fresh) = sz \<Longrightarrow>
   merge sz ov keep fresh ([x] # rest)
   = (concat keep, concat fresh) # merge sz ov (trim sz ov (Suc 0) (keep @ fresh)) [[x]] rest"
  by simp

lemma trim_characters:
  "trim sz ov (Suc 0) (map (\<lambda>c. [c]) ys)
   = map (\<lambda>c. [c]) (drop (length ys - min ov (sz - 1)) ys)"
proof (induction ys)
  case Nil
  then show ?case by simp
next
  case (Cons y ys)
  show ?case
  proof (cases "min ov (sz - 1) < Suc (length ys)")
    case True
    then have "Suc (length ys) - min ov (sz - 1) = Suc (length ys - min ov (sz - 1))"
      by simp
    with True Cons.IH show ?thesis
      by (auto simp add: concat_characters)
  next
    case False
    then show ?thesis by (auto simp add: concat_characters)
  qed
qed

lemma merge_three_windows:
  fixes a b c :: "'a list"
  assumes "length a = 100" "length b = 80" "length c = 70"
  shows "merge 100 20 [] [] (map (\<lambda>c. [c]) (a @ b @ c))
         = [([], a), (drop 80 a, b), (drop 60 b, c)]"
proof -
  let ?s = "map (\<lambda>c. [c])"
  from assms obtain b1 b' where b: "b = b1 # b'" by (cases b) auto
  from assms obtain c1 c' where c: "c = c1 # c'" by (cases c) auto
  have "merge 100 20 [] [] (?s (a @ b @ c)) = merge 100 20 [] [] (?s a @ ?s (b @ c))"
    by simp
  also have "\<dots> = merge 100 20 [] ([] @ ?s a) (?s (b @ c))"
    using assms by (intro merge_fill) simp
  also have "\<dots> = merge 100 20 [] (?s a) ([b1] # ?s (b' @ c))"
    by (simp add: b)
  also have "\<dots> = (concat [], concat (?s a))
                   # merge 100 20 (trim 100 20 (Suc 0) ([] @ ?s a)) [[b1]] (?s (b' @ c))"
    using assms by (intro merge_full) (simp_all add: concat_characters)
  also have "\<dots> = ([], a) # merge 100 20 (?s (drop 80 a)) [[b1]] (?s b' @ ?s c)"
    using assms by (simp add: concat_characters trim_characters)
  also have "merge 100 20 (?s (drop 80 a)) [[b1]] (?s b' @ ?s c)
             = merge 100 20 (?s (drop 80 a)) ([[b1]] @ ?s b') (?s c)"
    using assms b by (intro merge_fill) (simp add: concat_characters)
  also have "\<dots> = merge 100 20 (?s (drop 80 a)) (?s b) ([c1] # ?s c')"
    by (simp add: b c)
  also have "\<dots> = (concat (?s (drop 80 a)), concat (?s b))
                   # merge 100 20 (trim 100 20 (Suc 0) (?s (drop 80 a) @ ?s b)) [[c1]] (?s c')"
    using assms by (intro merge_full) (simp_all add: concat_characters)
  also have "trim 100 20 (Suc 0) (?s (drop 80 a) @ ?s b) = trim 100 20 (Suc 0) (?s (drop 80 a @ b))"
    by simp
  also have "\<dots> = ?s (drop 60 b)"
    using assms by (simp only: trim_characters) simp
  also have "merge 100 20 (?s (drop 60 b)) [[c1]] (?s c')
             = merge 100 20 (?s (drop 60 b)) [[c1]] (?s c' @ [])"
    by simp
  also have "\<dots> = merge 100 20 (?s (drop 60 b)) ([[c1]] @ ?s c') []"
    using assms c by (intro merge_fill) (simp add: concat_characters)
  also have "\<dots> = [(drop 60 b, c)]"
    by (simp add: c concat_characters)
  finally show ?thesis by (simp add: concat_characters)
qed

text \<open>
  C9. With a chunk size of 100 and an overlap of 20, a text of 250 characters with no
  line break and no space in it is cut into exactly three chunks: the characters 0 to 99,
  80 to 179 and 160 to 249. The shared part of the second chunk is the last 20
  characters of the first, and the shared part of the third is the last 20 characters of
  the second.
\<close>

theorem three_chunks_overlap_twenty:
  assumes "length text = 250" "CHR 0x0A \<notin> set text" "CHR '' '' \<notin> set text"
  shows "chunk_pieces 100 20 separators text
           = [([], take 100 text),
              (take 20 (drop 80 text), take 80 (drop 100 text)),
              (take 20 (drop 160 text), drop 180 text)]
       \<and> split_text 100 20 separators text
           = [take 100 text, take 100 (drop 80 text), drop 160 text]
       \<and> length (split_text 100 20 separators text) = 3"
proof -
  let ?a = "take 100 text" and ?b = "take 80 (drop 100 text)" and ?c = "drop 180 text"
  have t: "text = ?a @ ?b @ ?c"
  proof -
    have "drop 100 text = ?b @ drop 80 (drop 100 text)"
      by (simp only: append_take_drop_id)
    then have "drop 100 text = ?b @ ?c"
      by simp
    moreover have "text = ?a @ drop 100 text"
      by (simp only: append_take_drop_id)
    ultimately show ?thesis by simp
  qed
  have u: "units 100 separators text = map (\<lambda>c. [c]) text"
    using assms by (intro units_unbroken) simp_all
  have "merge 100 20 [] [] (map (\<lambda>c. [c]) (?a @ ?b @ ?c))
        = [([], ?a), (drop 80 ?a, ?b), (drop 60 ?b, ?c)]"
    using assms by (intro merge_three_windows) simp_all
  with t have "merge 100 20 [] [] (map (\<lambda>c. [c]) text)
        = [([], ?a), (drop 80 ?a, ?b), (drop 60 ?b, ?c)]"
    by simp
  moreover have "drop 80 ?a = take 20 (drop 80 text)"
    by (simp add: drop_take)
  moreover have "drop 60 ?b = take 20 (drop 160 text)"
    by (simp add: drop_take)
  ultimately have p: "chunk_pieces 100 20 separators text
           = [([], take 100 text),
              (take 20 (drop 80 text), take 80 (drop 100 text)),
              (take 20 (drop 160 text), drop 180 text)]"
    by (simp add: chunk_pieces_def u)
  have "take 20 (drop 80 text) @ take 80 (drop 100 text) = take 100 (drop 80 text)"
    using take_add [of 20 80 "drop 80 text"] by simp
  moreover have "take 20 (drop 160 text) @ drop 180 text = drop 160 text"
    using append_take_drop_id [of 20 "drop 160 text"] by simp
  ultimately show ?thesis
    by (simp add: split_text_def p)
qed

lemma unbroken_text_length: "length unbroken_text = 250"
  by (simp add: unbroken_text_def)

lemma unbroken_text_no_separator:
  "CHR 0x0A \<notin> set unbroken_text" "CHR '' '' \<notin> set unbroken_text"
  by (simp_all add: unbroken_text_def)

theorem three_chunks_overlap_twenty_witness:
  "length unbroken_text = 250
   \<and> CHR 0x0A \<notin> set unbroken_text \<and> CHR '' '' \<notin> set unbroken_text
   \<and> split_text 100 20 separators unbroken_text
       = [''00abcdefgh01abcdefgh02abcdefgh03abcdefgh04abcdefgh''
          @ ''05abcdefgh06abcdefgh07abcdefgh08abcdefgh09abcdefgh'',
          ''08abcdefgh09abcdefgh''
          @ ''10abcdefgh11abcdefgh12abcdefgh13abcdefgh14abcdefgh''
          @ ''15abcdefgh16abcdefgh17abcdefgh'',
          ''16abcdefgh17abcdefgh18abcdefgh19abcdefgh''
          @ ''20abcdefgh21abcdefgh22abcdefgh23abcdefgh24abcdefgh'']"
proof -
  from three_chunks_overlap_twenty [OF unbroken_text_length unbroken_text_no_separator]
  have "split_text 100 20 separators unbroken_text
        = [take 100 unbroken_text, take 100 (drop 80 unbroken_text), drop 160 unbroken_text]"
    by blast
  moreover have "take 100 unbroken_text
       = ''00abcdefgh01abcdefgh02abcdefgh03abcdefgh04abcdefgh''
          @ ''05abcdefgh06abcdefgh07abcdefgh08abcdefgh09abcdefgh''"
    by (simp add: unbroken_text_def)
  moreover have "take 100 (drop 80 unbroken_text)
       = ''08abcdefgh09abcdefgh''
          @ ''10abcdefgh11abcdefgh12abcdefgh13abcdefgh14abcdefgh''
          @ ''15abcdefgh16abcdefgh17abcdefgh''"
    by (simp add: unbroken_text_def)
  moreover have "drop 160 unbroken_text
       = ''16abcdefgh17abcdefgh18abcdefgh19abcdefgh''
          @ ''20abcdefgh21abcdefgh22abcdefgh23abcdefgh24abcdefgh''"
    by (simp add: unbroken_text_def)
  ultimately show ?thesis
    using unbroken_text_length unbroken_text_no_separator by simp
qed


end
